theory Spec2Isabelle
  imports Main "HOL-Library.Word" "HOL-Library.Sublist"
begin

unbundle bit_operations_syntax

section \<open>Strings\<close>

text \<open>
  A JavaScript string is modelled by the bytes of its UTF-8 encoding, so \<open>string\<close>
  (a list of 8-bit characters) is the text that \<^verbatim>\<open>fs.readFile(p, 'utf-8')\<close> returns and
  that \<^verbatim>\<open>fs.appendFile\<close> and \<^verbatim>\<open>update(str, 'utf8')\<close> consume. Searching and splitting on
  ASCII separators is the same on the bytes as on the code units.
\<close>

abbreviation LF :: char where
  "LF \<equiv> CHR 0x0A"

abbreviation HASH :: string where
  "HASH \<equiv> ''HASH:''"

text \<open>\<^verbatim>\<open>s.includes(sub)\<close>: \<open>sub\<close> occurs in \<open>s\<close> at some position.\<close>

fun includesStr :: "string \<Rightarrow> string \<Rightarrow> bool" where
  "includesStr [] sub = (sub = [])"
| "includesStr (c # cs) sub = (prefix sub (c # cs) \<or> includesStr cs sub)"

text \<open>
  \<^verbatim>\<open>s.split(sep)\<close> for a non-empty separator, which is what both call sites pass
  (\<^verbatim>\<open>'\n'\<close> and \<^verbatim>\<open>'HASH:'\<close>): the pieces between the occurrences of \<open>sep\<close>, found from left
  to right without overlap. The empty string splits into one empty piece.
\<close>

function split :: "string \<Rightarrow> string \<Rightarrow> string list" where
  "split sep [] = [[]]"
| "split sep (c # cs) =
     (if sep \<noteq> [] \<and> prefix sep (c # cs) then [] # split sep (drop (length sep) (c # cs))
      else (case split sep cs of r # rs \<Rightarrow> (c # r) # rs | [] \<Rightarrow> [[c]]))"
  by pat_completeness auto
termination
  by (relation "measure (\<lambda>(sep, s). length s)") (auto simp: neq_Nil_conv)

text \<open>
  The code points that \<^verbatim>\<open>String.prototype.trim\<close> removes (WhiteSpace and LineTerminator
  of ECMAScript), each as its UTF-8 encoding: TAB, LF, VT, FF, CR, SP, U+00A0, U+1680,
  U+2000 to U+200A, U+2028, U+2029, U+202F, U+205F, U+3000 and U+FEFF.
\<close>

definition js_whitespace :: "string list" where
  "js_whitespace =
    [[CHR 0x09], [CHR 0x0A], [CHR 0x0B], [CHR 0x0C], [CHR 0x0D], [CHR 0x20],
     [CHR 0xC2, CHR 0xA0],
     [CHR 0xE1, CHR 0x9A, CHR 0x80],
     [CHR 0xE2, CHR 0x80, CHR 0x80], [CHR 0xE2, CHR 0x80, CHR 0x81],
     [CHR 0xE2, CHR 0x80, CHR 0x82], [CHR 0xE2, CHR 0x80, CHR 0x83],
     [CHR 0xE2, CHR 0x80, CHR 0x84], [CHR 0xE2, CHR 0x80, CHR 0x85],
     [CHR 0xE2, CHR 0x80, CHR 0x86], [CHR 0xE2, CHR 0x80, CHR 0x87],
     [CHR 0xE2, CHR 0x80, CHR 0x88], [CHR 0xE2, CHR 0x80, CHR 0x89],
     [CHR 0xE2, CHR 0x80, CHR 0x8A],
     [CHR 0xE2, CHR 0x80, CHR 0xA8], [CHR 0xE2, CHR 0x80, CHR 0xA9],
     [CHR 0xE2, CHR 0x80, CHR 0xAF],
     [CHR 0xE2, CHR 0x81, CHR 0x9F],
     [CHR 0xE3, CHR 0x80, CHR 0x80],
     [CHR 0xEF, CHR 0xBB, CHR 0xBF]]"

text \<open>Removing, from the front, every leading token of the list \<open>toks\<close>.\<close>

function strip :: "string list \<Rightarrow> string \<Rightarrow> string" where
  "strip toks s =
     (case find (\<lambda>t. prefix t s) toks of
        None \<Rightarrow> s
      | Some t \<Rightarrow> if t = [] then s else strip toks (drop (length t) s))"
  by pat_completeness auto
termination
proof (relation "measure (\<lambda>(toks, s). length s)", goal_cases)
  case 1
  show ?case by simp
next
  case (2 toks s t)
  from \<open>find (\<lambda>t. prefix t s) toks = Some t\<close> have "prefix t s"
    by (auto simp: find_Some_iff)
  with \<open>t \<noteq> []\<close> have "s \<noteq> []" by auto
  with \<open>t \<noteq> []\<close> show ?case by simp
qed

declare strip.simps [simp del]

definition trimStart :: "string \<Rightarrow> string" where
  "trimStart s = strip js_whitespace s"

definition trimEnd :: "string \<Rightarrow> string" where
  "trimEnd s = rev (strip (map rev js_whitespace) (rev s))"

definition trim :: "string \<Rightarrow> string" where
  "trim s = trimEnd (trimStart s)"

text \<open>\<^verbatim>\<open>xs.join(sep)\<close> on an array of strings.\<close>

fun join :: "string \<Rightarrow> string list \<Rightarrow> string" where
  "join sep [] = []"
| "join sep [x] = x"
| "join sep (x # y # ys) = x @ sep @ join sep (y # ys)"

section \<open>SHA-256\<close>

text \<open>
  \<^verbatim>\<open>crypto.createHash('sha256').update(str, 'utf8').digest('hex')\<close>: the SHA-256 function
  of FIPS 180-4 on the bytes of the string, printed as 64 lower-case hexadecimal digits.
\<close>

type_synonym w32 = "32 word"
type_synonym byte = "8 word"

definition Ch :: "w32 \<Rightarrow> w32 \<Rightarrow> w32 \<Rightarrow> w32" where
  "Ch x y z = (x AND y) XOR (NOT x AND z)"

definition Maj :: "w32 \<Rightarrow> w32 \<Rightarrow> w32 \<Rightarrow> w32" where
  "Maj x y z = (x AND y) XOR (x AND z) XOR (y AND z)"

definition bsig0 :: "w32 \<Rightarrow> w32" where
  "bsig0 x = word_rotr 2 x XOR word_rotr 13 x XOR word_rotr 22 x"

definition bsig1 :: "w32 \<Rightarrow> w32" where
  "bsig1 x = word_rotr 6 x XOR word_rotr 11 x XOR word_rotr 25 x"

definition ssig0 :: "w32 \<Rightarrow> w32" where
  "ssig0 x = word_rotr 7 x XOR word_rotr 18 x XOR drop_bit 3 x"

definition ssig1 :: "w32 \<Rightarrow> w32" where
  "ssig1 x = word_rotr 17 x XOR word_rotr 19 x XOR drop_bit 10 x"

definition sha256_K :: "w32 list" where
  "sha256_K =
   [0x428A2F98, 0x71374491, 0xB5C0FBCF, 0xE9B5DBA5, 0x3956C25B, 0x59F111F1, 0x923F82A4, 0xAB1C5ED5,
    0xD807AA98, 0x12835B01, 0x243185BE, 0x550C7DC3, 0x72BE5D74, 0x80DEB1FE, 0x9BDC06A7, 0xC19BF174,
    0xE49B69C1, 0xEFBE4786, 0x0FC19DC6, 0x240CA1CC, 0x2DE92C6F, 0x4A7484AA, 0x5CB0A9DC, 0x76F988DA,
    0x983E5152, 0xA831C66D, 0xB00327C8, 0xBF597FC7, 0xC6E00BF3, 0xD5A79147, 0x06CA6351, 0x14292967,
    0x27B70A85, 0x2E1B2138, 0x4D2C6DFC, 0x53380D13, 0x650A7354, 0x766A0ABB, 0x81C2C92E, 0x92722C85,
    0xA2BFE8A1, 0xA81A664B, 0xC24B8B70, 0xC76C51A3, 0xD192E819, 0xD6990624, 0xF40E3585, 0x106AA070,
    0x19A4C116, 0x1E376C08, 0x2748774C, 0x34B0BCB5, 0x391C0CB3, 0x4ED8AA4A, 0x5B9CCA4F, 0x682E6FF3,
    0x748F82EE, 0x78A5636F, 0x84C87814, 0x8CC70208, 0x90BEFFFA, 0xA4506CEB, 0xBEF9A3F7, 0xC67178F2]"

definition sha256_H0 :: "w32 list" where
  "sha256_H0 = [0x6a09e667, 0xbb67ae85, 0x3c6ef372, 0xa54ff53a,
                0x510e527f, 0x9b05688c, 0x1f83d9ab, 0x5be0cd19]"

text \<open>Padding: the message, the byte 0x80, zero bytes up to 56 modulo 64, and the length of
  the message in bits as eight bytes, most significant first.\<close>

definition pad :: "byte list \<Rightarrow> byte list" where
  "pad bs = (let l = length bs; bits = (word_of_nat l * 8 :: 64 word) in
     bs @ [0x80] @ replicate ((119 - l mod 64) mod 64) 0 @
     map (\<lambda>i. ucast (drop_bit (8 * i) bits)) [7, 6, 5, 4, 3, 2, 1, 0])"

fun be_words :: "byte list \<Rightarrow> w32 list" where
  "be_words (a # b # c # d # bs) =
     (push_bit 24 (ucast a) OR push_bit 16 (ucast b) OR push_bit 8 (ucast c) OR ucast d)
       # be_words bs"
| "be_words _ = []"

text \<open>The message schedule, kept newest word first: \<open>schedule 48\<close> extends the sixteen words
  of a block to sixty-four.\<close>

fun schedule :: "nat \<Rightarrow> w32 list \<Rightarrow> w32 list" where
  "schedule 0 ws = ws"
| "schedule (Suc n) ws =
     schedule n ((ssig1 (ws ! 1) + ws ! 6 + ssig0 (ws ! 14) + ws ! 15) # ws)"

fun round :: "w32 list \<Rightarrow> w32 \<times> w32 \<Rightarrow> w32 list" where
  "round [a, b, c, d, e, f, g, h] (k, w) =
     (let t1 = h + bsig1 e + Ch e f g + k + w; t2 = bsig0 a + Maj a b c
      in [t1 + t2, a, b, c, d + t1, e, f, g])"
| "round s _ = s"

definition compress :: "w32 list \<Rightarrow> w32 list \<Rightarrow> w32 list" where
  "compress hs block =
     map2 (+) hs (foldl round hs (zip sha256_K (rev (schedule 48 (rev block)))))"

fun blocks :: "nat \<Rightarrow> w32 list \<Rightarrow> w32 list list" where
  "blocks 0 ws = []"
| "blocks (Suc n) ws = take 16 ws # blocks n (drop 16 ws)"

definition hex_digit :: "w32 \<Rightarrow> char" where
  "hex_digit n = ''0123456789abcdef'' ! unat (n AND 15)"

definition hex32 :: "w32 \<Rightarrow> string" where
  "hex32 w = map (\<lambda>i. hex_digit (drop_bit (4 * i) w)) [7, 6, 5, 4, 3, 2, 1, 0]"

definition sha256 :: "string \<Rightarrow> string" where
  "sha256 s = (let ws = be_words (pad (map of_char s))
     in concat (map hex32 (foldl compress sha256_H0 (blocks (length ws div 16) ws))))"

text \<open>\<^verbatim>\<open>calculateDirectoryChecksum\<close> (line 18).\<close>

definition calculateDirectoryChecksum :: "string \<Rightarrow> string" where
  "calculateDirectoryChecksum str = sha256 str"

definition is_hex :: "char \<Rightarrow> bool" where
  "is_hex c = (c \<in> set ''0123456789abcdef'')"

definition is_hex64 :: "string \<Rightarrow> bool" where
  "is_hex64 h = (length h = 64 \<and> list_all is_hex h)"

section \<open>Dates\<close>

text \<open>
  A \<^verbatim>\<open>Date\<close> is modelled by its UTC fields. \<^verbatim>\<open>toISOString\<close> prints
  \<^verbatim>\<open>YYYY-MM-DDTHH:mm:ss.sssZ\<close>, and \<^verbatim>\<open>+YYYYYY-MM-DDTHH:mm:ss.sssZ\<close> for a year after 9999.
\<close>

record date =
  year :: nat
  month :: nat
  day :: nat
  hours :: nat
  minutes :: nat
  seconds :: nat
  milliseconds :: nat

definition digit :: "nat \<Rightarrow> char" where
  "digit n = ''0123456789'' ! (n mod 10)"

definition pad2 :: "nat \<Rightarrow> string" where
  "pad2 n = [digit (n div 10), digit n]"

definition pad3 :: "nat \<Rightarrow> string" where
  "pad3 n = [digit (n div 100), digit (n div 10), digit n]"

definition pad4 :: "nat \<Rightarrow> string" where
  "pad4 n = [digit (n div 1000), digit (n div 100), digit (n div 10), digit n]"

definition pad6 :: "nat \<Rightarrow> string" where
  "pad6 n = [digit (n div 100000), digit (n div 10000), digit (n div 1000),
             digit (n div 100), digit (n div 10), digit n]"

definition toISOString :: "date \<Rightarrow> string" where
  "toISOString d =
     (if year d \<le> 9999 then pad4 (year d) else CHR ''+'' # pad6 (year d))
     @ ''-'' @ pad2 (month d) @ ''-'' @ pad2 (day d)
     @ ''T'' @ pad2 (hours d) @ '':'' @ pad2 (minutes d) @ '':'' @ pad2 (seconds d)
     @ ''.'' @ pad3 (milliseconds d) @ ''Z''"

text \<open>The shape of a string: in the template, \<open>9\<close> stands for any decimal digit and every
  other character for itself.\<close>

definition is_digit :: "char \<Rightarrow> bool" where
  "is_digit c = (c \<in> set ''0123456789'')"

definition matches :: "string \<Rightarrow> string \<Rightarrow> bool" where
  "matches template s =
     list_all2 (\<lambda>p c. if p = CHR ''9'' then is_digit c else c = p) template s"

definition is_iso8601 :: "string \<Rightarrow> bool" where
  "is_iso8601 s = (matches ''9999-99-99T99:99:99.999Z'' s
                 \<or> matches ''+999999-99-99T99:99:99.999Z'' s)"

text \<open>\<^verbatim>\<open>.replace(/[:.]/g, '-')\<close> (line 64) and \<^verbatim>\<open>.replace(/\\/g, '/')\<close> (lines 69, 70).\<close>

definition dashed :: "string \<Rightarrow> string" where
  "dashed s = map (\<lambda>c. if c = CHR '':'' \<or> c = CHR ''.'' then CHR ''-'' else c) s"

definition forward_slashes :: "string \<Rightarrow> string" where
  "forward_slashes s = map (\<lambda>c. if c = CHR 0x5C then CHR ''/'' else c) s"

section \<open>The environment\<close>

text \<open>
  What the program sees of its platform. A thrown value is an \<^verbatim>\<open>Error\<close> with its message.
  The world holds the regular files and the directories by path, the tar commands that
  have completed (each one has written the archive it names), what was printed, the
  clock, and a fault plan: \<open>faults w n\<close> is the error, if any, with which the \<open>n\<close>-th
  file-system or process operation fails, whatever that operation is. The operations
  below give the outcome of the common cases from the files and directories of the
  world; every other outcome that the platform can produce (a permission, a full disk, a
  malformed path, a failing tar) is a fault of the plan, with the message of the plan.
  \<open>clock w n\<close> is the date that \<^verbatim>\<open>new Date()\<close> gives after \<open>n\<close> such operations, \<open>race\<close>
  decides which of several rejections reaches \<^verbatim>\<open>Promise.all\<close> first, and \<open>path_join\<close> is
  \<^verbatim>\<open>path.join\<close> of the platform.
\<close>

datatype error = Error (message: string)

datatype printed =
    ConsoleLog string
  | ConsoleError string
  | ConsoleErrorObj string error
  | StderrWrite string

record world =
  files :: "string \<rightharpoonup> string"
  dirs :: "string \<rightharpoonup> string list"
  executed :: "string list"
  console :: "printed list"
  clock :: "nat \<Rightarrow> date"
  faults :: "nat \<Rightarrow> error option"
  tick :: nat
  race :: nat
  path_join :: "string \<Rightarrow> string \<Rightarrow> string"

type_synonym 'a io = "world \<Rightarrow> (error + 'a) \<times> world"

definition return_io :: "'a \<Rightarrow> 'a io" where
  "return_io x w = (Inr x, w)"

definition throw :: "error \<Rightarrow> 'a io" where
  "throw e w = (Inl e, w)"

definition bind_io :: "'a io \<Rightarrow> ('a \<Rightarrow> 'b io) \<Rightarrow> 'b io" where
  "bind_io m f w = (case m w of (Inl e, w') \<Rightarrow> (Inl e, w') | (Inr x, w') \<Rightarrow> f x w')"

definition try_catch :: "'a io \<Rightarrow> (error \<Rightarrow> 'a io) \<Rightarrow> 'a io" where
  "try_catch m h w = (case m w of (Inl e, w') \<Rightarrow> h e w' | (Inr x, w') \<Rightarrow> (Inr x, w'))"

text \<open>\<^verbatim>\<open>Promise.all(xs.map(f))\<close>: every operation is started, in the order of \<open>xs\<close>,
  whether or not another one fails. When all of them succeed, the results come in the
  order of \<open>xs\<close>. Otherwise the promise rejects with the rejection that settles first,
  which is any one of them: the one that \<open>race\<close> picks.\<close>

fun all_io :: "('a \<Rightarrow> 'b io) \<Rightarrow> 'a list \<Rightarrow> world \<Rightarrow> (error + 'b) list \<times> world" where
  "all_io f [] w = ([], w)"
| "all_io f (x # xs) w =
     (case f x w of (r, w1) \<Rightarrow> (case all_io f xs w1 of (rs, w2) \<Rightarrow> (r # rs, w2)))"

fun rejections :: "(error + 'b) list \<Rightarrow> error list" where
  "rejections [] = []"
| "rejections (Inl e # rs) = e # rejections rs"
| "rejections (Inr y # rs) = rejections rs"

fun fulfilled :: "(error + 'b) list \<Rightarrow> 'b list" where
  "fulfilled [] = []"
| "fulfilled (Inl e # rs) = fulfilled rs"
| "fulfilled (Inr y # rs) = y # fulfilled rs"

definition promise_all :: "('a \<Rightarrow> 'b io) \<Rightarrow> 'a list \<Rightarrow> 'b list io" where
  "promise_all f xs w =
     (case all_io f xs w of
        (rs, w1) \<Rightarrow>
          (case rejections rs of
             [] \<Rightarrow> (Inr (fulfilled rs), w1)
           | e # es \<Rightarrow> (Inl ((e # es) ! (race w mod length (e # es))), w1)))"

text \<open>An operation of the platform: it fails as the fault plan says, and counts.\<close>

definition io_step :: "'a io \<Rightarrow> 'a io" where
  "io_step op w =
     (case faults w (tick w) of
        Some e \<Rightarrow> (Inl e, w\<lparr>tick := Suc (tick w)\<rparr>)
      | None \<Rightarrow> op (w\<lparr>tick := Suc (tick w)\<rparr>))"

definition quoted :: "string \<Rightarrow> string" where
  "quoted p = [CHR 0x27] @ p @ [CHR 0x27]"

definition readFile :: "string \<Rightarrow> string io" where
  "readFile p = io_step (\<lambda>w.
     case files w p of
       Some c \<Rightarrow> (Inr c, w)
     | None \<Rightarrow>
        (case dirs w p of
           Some _ \<Rightarrow> (Inl (Error ''EISDIR: illegal operation on a directory, read''), w)
         | None \<Rightarrow> (Inl (Error (''ENOENT: no such file or directory, open '' @ quoted p)), w)))"

definition readdir :: "string \<Rightarrow> string list io" where
  "readdir p = io_step (\<lambda>w.
     case dirs w p of
       Some names \<Rightarrow> (Inr names, w)
     | None \<Rightarrow>
        (case files w p of
           Some _ \<Rightarrow> (Inl (Error (''ENOTDIR: not a directory, scandir '' @ quoted p)), w)
         | None \<Rightarrow> (Inl (Error (''ENOENT: no such file or directory, scandir '' @ quoted p)), w)))"

text \<open>\<^verbatim>\<open>fs.mkdir(p, { recursive: true })\<close>: nothing to do when the directory exists; it
  fails when the path or one of the paths above it is a regular file; otherwise it
  creates the directory and the missing directories above it. \<open>ancestors p\<close> are the
  paths above \<open>p\<close>: what stands before each of its slashes.\<close>

definition ancestors :: "string \<Rightarrow> string list" where
  "ancestors p = map (\<lambda>i. take i p) (filter (\<lambda>i. p ! i = CHR ''/'') [1..<length p])"

definition mkdir :: "string \<Rightarrow> unit io" where
  "mkdir p = io_step (\<lambda>w.
     case dirs w p of
       Some _ \<Rightarrow> (Inr (), w)
     | None \<Rightarrow>
        (case files w p of
           Some _ \<Rightarrow> (Inl (Error (''EEXIST: file already exists, mkdir '' @ quoted p)), w)
         | None \<Rightarrow>
            (case find (\<lambda>a. files w a \<noteq> None) (ancestors p) of
               Some _ \<Rightarrow> (Inl (Error (''ENOTDIR: not a directory, mkdir '' @ quoted p)), w)
             | None \<Rightarrow>
                (Inr (), w\<lparr>dirs := fold (\<lambda>a ds. if ds a = None then ds(a \<mapsto> []) else ds)
                                   (ancestors p @ [p]) (dirs w)\<rparr>))))"

text \<open>\<^verbatim>\<open>fs.appendFile(p, text)\<close> creates the file when it is missing.\<close>

definition appendFile :: "string \<Rightarrow> string \<Rightarrow> unit io" where
  "appendFile p txt = io_step (\<lambda>w.
     case dirs w p of
       Some _ \<Rightarrow> (Inl (Error (''EISDIR: illegal operation on a directory, open '' @ quoted p)), w)
     | None \<Rightarrow>
        (Inr (), w\<lparr>files := (files w)(p \<mapsto> (case files w p of None \<Rightarrow> txt | Some c \<Rightarrow> c @ txt))\<rparr>))"

text \<open>\<^verbatim>\<open>promisifiedExec\<close> (line 9) on a tar command: the archiver either fails, as the
  fault plan says, or completes, and then the archive that the command names exists.\<close>

definition promisifiedExec :: "string \<Rightarrow> unit io" where
  "promisifiedExec cmd = io_step (\<lambda>w. (Inr (), w\<lparr>executed := executed w @ [cmd]\<rparr>))"

definition print :: "printed \<Rightarrow> unit io" where
  "print out w = (Inr (), w\<lparr>console := console w @ [out]\<rparr>)"

text \<open>The text of a file, empty when the file is missing.\<close>

definition text_of :: "world \<Rightarrow> string \<Rightarrow> string" where
  "text_of w p = (case files w p of None \<Rightarrow> [] | Some c \<Rightarrow> c)"

section \<open>The program\<close>

definition logFilePath :: string where
  "logFilePath = ''backup_log.txt''"

text \<open>\<^verbatim>\<open>getLastBackupHash\<close>, lines 33 to 46: what the function returns for the text of
  the log. \<^verbatim>\<open>null\<close> is \<open>None\<close>; the empty string is falsy in line 38.\<close>

definition lastHashIn :: "string \<Rightarrow> string option" where
  "lastHashIn logFileContent =
     (let logLines = split [LF] (trim logFileContent);
          lastHashLine = find (\<lambda>line. includesStr line HASH) (rev logLines)
      in case lastHashLine of
           None \<Rightarrow> None
         | Some line \<Rightarrow>
            if line = [] then None
            else (case split HASH line of
                    _ # lastHash # _ \<Rightarrow> Some (trim lastHash)
                  | _ \<Rightarrow> None))"

text \<open>\<^verbatim>\<open>getLastBackupHash\<close> (lines 27 to 51).\<close>

definition getLastBackupHash :: "string \<Rightarrow> string option io" where
  "getLastBackupHash logPath =
     try_catch
       (bind_io (readFile logPath) (\<lambda>logFileContent. return_io (lastHashIn logFileContent)))
       (\<lambda>error. bind_io (print (ConsoleErrorObj ''Error reading log file:'' error))
                   (\<lambda>_. return_io None))"

text \<open>The template literals of lines 75, 87 and 91.\<close>

definition tarCommand :: "string \<Rightarrow> string \<Rightarrow> string" where
  "tarCommand normalizedBackupFilePath normalizedSourceDir =
     ''tar -czf '' @ [CHR 0x22] @ normalizedBackupFilePath @ [CHR 0x22] @ '' -C ''
       @ [CHR 0x22] @ normalizedSourceDir @ [CHR 0x22] @ '' .''"

definition successLog :: "string \<Rightarrow> string \<Rightarrow> string \<Rightarrow> string" where
  "successLog timestamp normalizedBackupFilePath checksum =
     timestamp @ '': SUCCESS: Backup created at '' @ normalizedBackupFilePath
       @ '', HASH: '' @ checksum @ [LF]"

definition failedLog :: "string \<Rightarrow> string \<Rightarrow> string" where
  "failedLog isoString msg = isoString @ '': FAILED: '' @ msg @ [LF]"

text \<open>\<^verbatim>\<open>createArchive\<close>: the \<^verbatim>\<open>try\<close> block (lines 73 to 89).\<close>

definition createArchive_try :: "string \<Rightarrow> string \<Rightarrow> string \<Rightarrow> string \<Rightarrow> unit io" where
  "createArchive_try timestamp normalizedBackupFilePath normalizedSourceDir sourceDir =
     (let tarCommand = tarCommand normalizedBackupFilePath normalizedSourceDir in
      bind_io (print (ConsoleLog (''Running tar command: '' @ tarCommand))) (\<lambda>_.
      bind_io (promisifiedExec tarCommand) (\<lambda>_.
      bind_io (readdir sourceDir) (\<lambda>files.
      bind_io (print (ConsoleLog (''Files in source directory: '' @ join '','' files))) (\<lambda>_.
      bind_io (\<lambda>w. promise_all (\<lambda>file. readFile (path_join w sourceDir file)) files w)
        (\<lambda>fileContents.
      let checksum = calculateDirectoryChecksum (join [] fileContents);
          successLog = successLog timestamp normalizedBackupFilePath checksum in
      bind_io (print (ConsoleLog (''Writing success log: '' @ successLog))) (\<lambda>_.
      appendFile logFilePath successLog)))))))"

text \<open>\<^verbatim>\<open>createArchive\<close>: the \<^verbatim>\<open>catch\<close> block (lines 90 to 95).\<close>

definition createArchive_catch :: "error \<Rightarrow> unit io" where
  "createArchive_catch error =
     (\<lambda>w. (let failedLog = failedLog (toISOString (clock w (tick w))) (message error) in
      bind_io (print (ConsoleError (''Error occurred: '' @ message error))) (\<lambda>_.
      bind_io (appendFile logFilePath failedLog) (\<lambda>_.
      throw (Error (''Failed to create backup, error = '' @ message error))))) w)"

text \<open>\<^verbatim>\<open>createArchive\<close> (lines 62 to 96).\<close>

definition createArchive :: "string \<Rightarrow> string \<Rightarrow> unit io" where
  "createArchive sourceDir destinationDir =
     (\<lambda>w. (let timestamp = dashed (toISOString (clock w (tick w)));
               backupFilename = ''backup-'' @ timestamp @ ''.tar.gz'';
               backupFilePath = path_join w destinationDir backupFilename;
               normalizedSourceDir = forward_slashes sourceDir;
               normalizedBackupFilePath = forward_slashes backupFilePath
           in try_catch
                (createArchive_try timestamp normalizedBackupFilePath normalizedSourceDir sourceDir)
                createArchive_catch) w)"

text \<open>\<^verbatim>\<open>runBackup\<close>: the \<^verbatim>\<open>try\<close> block (lines 110 to 129) and the \<^verbatim>\<open>catch\<close> block
  (lines 131 to 133).\<close>

definition runBackup_try :: "string \<Rightarrow> string \<Rightarrow> unit io" where
  "runBackup_try sourceDir destinationDir =
     bind_io (readdir sourceDir) (\<lambda>files.
     let newChecksum = calculateDirectoryChecksum (join [] files) in
     bind_io (getLastBackupHash logFilePath) (\<lambda>lastChecksum.
     if lastChecksum = Some newChecksum
     then print (ConsoleLog ''No changes detected since last backup'')
     else bind_io (mkdir destinationDir) (\<lambda>_.
          createArchive sourceDir destinationDir)))"

definition runBackup_catch :: "error \<Rightarrow> unit io" where
  "runBackup_catch error =
     bind_io (print (ConsoleError (''Error occurred during backup: '' @ message error))) (\<lambda>_.
     print (StderrWrite (''Error occurred during backup: '' @ message error @ [LF])))"

text \<open>\<^verbatim>\<open>runBackup\<close> (lines 108 to 135).\<close>

definition runBackup :: "string \<Rightarrow> string \<Rightarrow> unit io" where
  "runBackup sourceDir destinationDir =
     try_catch (runBackup_try sourceDir destinationDir) runBackup_catch"

section \<open>Example worlds\<close>

text \<open>A clock that advances by one second with every operation, and a world with a source
  directory \<open>src\<close>, an empty destination directory \<open>dst\<close>, the given files and the given
  fault plan, on a platform whose \<^verbatim>\<open>path.join\<close> puts a slash between its arguments.\<close>

definition example_clock :: "nat \<Rightarrow> date" where
  "example_clock n =
     \<lparr>year = 2024, month = 1, day = 1, hours = 12, minutes = 0, seconds = n mod 60,
      milliseconds = 0\<rparr>"

definition example_world ::
  "string list \<Rightarrow> (string \<rightharpoonup> string) \<Rightarrow> (nat \<Rightarrow> error option) \<Rightarrow> world" where
  "example_world names fs fl =
     \<lparr>files = fs, dirs = [''src'' \<mapsto> names, ''dst'' \<mapsto> []], executed = [], console = [],
      clock = example_clock, faults = fl, tick = 0, race = 0,
      path_join = (\<lambda>a b. a @ ''/'' @ b)\<rparr>"

definition no_faults :: "nat \<Rightarrow> error option" where
  "no_faults n = None"



text \<open>The line grammar of the log as the specification states it (section 6, without the
  final line feed): an ISO 8601 timestamp, then either \<^verbatim>\<open>: SUCCESS: Backup created at \<close>, a
  path, \<^verbatim>\<open>, HASH: \<close> and 64 hexadecimal digits, or \<^verbatim>\<open>: FAILED: \<close> and a message.\<close>

definition spec_log_line :: "string \<Rightarrow> bool" where
  "spec_log_line l =
     ((\<exists>ts p h. is_iso8601 ts \<and> is_hex64 h \<and>
          l = ts @ '': SUCCESS: Backup created at '' @ p @ '', HASH: '' @ h)
      \<or> (\<exists>ts m. is_iso8601 ts \<and> l = ts @ '': FAILED: '' @ m))"

text \<open>The entries that the program appends to its log, each with its final line feed: a
  success entry is some timestamp text, \<^verbatim>\<open>: SUCCESS: Backup created at \<close>, a path,
  \<^verbatim>\<open>, HASH: \<close> and 64 hexadecimal digits; a failure entry is an ISO 8601 timestamp,
  \<^verbatim>\<open>: FAILED: \<close> and a message, which is any text.\<close>

definition log_entry :: "string \<Rightarrow> bool" where
  "log_entry e =
     ((\<exists>ts p h. is_hex64 h \<and>
          e = ts @ '': SUCCESS: Backup created at '' @ p @ '', HASH: '' @ h @ [LF])
      \<or> (\<exists>ts m. is_iso8601 ts \<and> e = ts @ '': FAILED: '' @ m @ [LF]))"

section \<open>Strings: what the operations compute\<close>

lemma includesStr_sublist: "includesStr s sub \<longleftrightarrow> sublist sub s"
  by (induction s) (auto simp: sublist_Cons_right)

lemma split_not_Nil: "split sep s \<noteq> []"
  by (induction sep s rule: split.induct) (auto split: list.splits)

lemma split_no_sep: "\<not> includesStr s sep \<Longrightarrow> split sep s = [s]"
  by (induction s) (auto split: list.splits)

lemma prefix_shorter:
  "prefix p (x @ y) \<Longrightarrow> length p \<le> length x \<Longrightarrow> prefix p x"
  by (metis prefix_length_prefix prefixI prefix_order.dual_order.refl append_prefixD prefix_append)

lemma split_first:
  assumes "sep \<noteq> []" and "\<not> includesStr (a @ butlast sep) sep"
  shows "split sep (a @ sep @ b) = a # split sep b"
proof -
  from assms(1) obtain s' x where sep: "sep = s' @ [x]" by (cases sep rule: rev_cases) auto
  from assms(2) show ?thesis unfolding sep
  proof (induction a)
    case Nil
    then show ?case by (cases s') auto
  next
    case (Cons c a)
    from Cons.prems have np: "\<not> prefix (s' @ [x]) (c # a @ s')"
      and ni: "\<not> includesStr (a @ butlast (s' @ [x])) (s' @ [x])" by auto
    have "\<not> prefix (s' @ [x]) (c # a @ (s' @ [x]) @ b)"
    proof
      assume "prefix (s' @ [x]) (c # a @ (s' @ [x]) @ b)"
      then have "prefix (s' @ [x]) ((c # a @ s') @ (x # b))" by simp
      then have "prefix (s' @ [x]) (c # a @ s')" by (rule prefix_shorter) simp
      with np show False ..
    qed
    with Cons.IH[OF ni] show ?case by simp
  qed
qed

lemma HASH_no_overlap:
  "\<not> includesStr a HASH \<Longrightarrow> \<not> includesStr (a @ ''HASH'') HASH"
proof (induction a)
  case Nil
  show ?case by simp
next
  case (Cons c a)
  then have ih: "\<not> includesStr (a @ ''HASH'') HASH" and np: "\<not> prefix HASH (c # a)" by auto
  have "\<not> prefix HASH (c # a @ ''HASH'')"
  proof
    assume p: "prefix HASH (c # a @ ''HASH'')"
    show False
    proof (cases "length (c # a) \<ge> 5")
      case True
      from p have "prefix HASH ((c # a) @ ''HASH'')" by (simp only: append.simps)
      then have "prefix HASH (c # a)" by (rule prefix_shorter) (use True in simp)
      with np show False ..
    next
      case False
      then have "length a < 4" by simp
      then have "a = [] \<or> (\<exists>x. a = [x]) \<or> (\<exists>x y. a = [x, y]) \<or> (\<exists>x y z. a = [x, y, z])"
        by (cases a; simp; cases "tl a"; simp; cases "tl (tl a)"; simp; cases "tl (tl (tl a))"; simp)
      then show False using p by auto
    qed
  qed
  with ih show ?case by simp
qed

lemma split_HASH:
  assumes "\<not> includesStr a HASH"
  shows "split HASH (a @ HASH @ b) = a # split HASH b"
  using split_first[of HASH a b] HASH_no_overlap[OF assms] by simp

lemma hd_split_prefix: "prefix (hd (split sep s)) s"
  by (induction sep s rule: split.induct) (auto split: list.splits)

lemma split_pieces_sublist: "l \<in> set (split sep s) \<Longrightarrow> sublist l s"
proof (induction sep s arbitrary: l rule: split.induct)
  case (1 sep)
  then show ?case by simp
next
  case (2 sep c cs)
  show ?case
  proof (cases "sep \<noteq> [] \<and> prefix sep (c # cs)")
    case True
    with "2.prems" have "l = [] \<or> l \<in> set (split sep (drop (length sep) (c # cs)))" by auto
    then show ?thesis
    proof
      assume "l = []" then show ?thesis by simp
    next
      assume "l \<in> set (split sep (drop (length sep) (c # cs)))"
      with "2.IH"(1) True have "sublist l (drop (length sep) (c # cs))" by blast
      then show ?thesis by (meson sublist_drop sublist_order.order_trans)
    qed
  next
    case False
    obtain r rs where r: "split sep cs = r # rs" using split_not_Nil[of sep cs] by (cases "split sep cs") auto
    with False "2.prems" have "l = c # r \<or> l \<in> set rs" by auto
    then show ?thesis
    proof
      assume l: "l = c # r"
      have "prefix r cs" using hd_split_prefix[of sep cs] r by simp
      then have "prefix l (c # cs)" using l by simp
      then show ?thesis by (rule prefix_imp_sublist)
    next
      assume "l \<in> set rs"
      with r have "l \<in> set (split sep cs)" by simp
      with "2.IH"(2) False have "sublist l cs" by blast
      then show ?thesis by (simp add: sublist_Cons_right)
    qed
  qed
qed

lemma strip_drop: "\<exists>k. strip toks s = drop k s"
proof (induction toks s rule: strip.induct)
  case (1 toks s)
  show ?case
  proof (cases "find (\<lambda>t. prefix t s) toks")
    case None
    then have "strip toks s = drop 0 s" by (subst strip.simps) simp
    then show ?thesis by blast
  next
    case (Some t)
    show ?thesis
    proof (cases "t = []")
      case True
      with Some have "strip toks s = drop 0 s" by (subst strip.simps) simp
      then show ?thesis by blast
    next
      case False
      with "1.IH"[OF Some False] obtain k where "strip toks (drop (length t) s) = drop k (drop (length t) s)"
        by blast
      with Some False have "strip toks s = drop (k + length t) s"
        by (subst strip.simps) (simp add: add.commute)
      then show ?thesis by blast
    qed
  qed
qed

lemma trim_sublist: "sublist (trim s) s"
proof -
  obtain k where k: "trimStart s = drop k s" using strip_drop unfolding trimStart_def by blast
  obtain j where "strip (map rev js_whitespace) (rev (trimStart s)) = drop j (rev (trimStart s))"
    using strip_drop by blast
  then have "trimEnd (trimStart s) = take (length (trimStart s) - j) (trimStart s)"
    unfolding trimEnd_def by (simp add: rev_drop)
  then have "sublist (trim s) (trimStart s)" unfolding trim_def by simp
  moreover have "sublist (trimStart s) s" unfolding k by simp
  ultimately show ?thesis by (rule sublist_order.order_trans)
qed

lemma includesStr_mono: "sublist l s \<Longrightarrow> includesStr l x \<Longrightarrow> includesStr s x"
  unfolding includesStr_sublist by (rule sublist_order.order_trans[rotated])

lemma find_rev_last:
  "\<forall>m\<in>set post. \<not> P m \<Longrightarrow> P l \<Longrightarrow> find P (rev (pre @ [l] @ post)) = Some l"
  by (induction post rule: rev_induct) auto

lemma ws_pairs:
  "list_all (\<lambda>t. list_all (\<lambda>t'. (prefix t' t \<or> prefix t t') \<longrightarrow> t' = t) js_whitespace) js_whitespace"
  unfolding js_whitespace_def by simp

lemma ws_prefix_free:
  assumes "t \<in> set js_whitespace" "t' \<in> set js_whitespace" "prefix t' (t @ r)"
  shows "t' = t"
proof -
  from assms(3) have "prefix t' t \<or> prefix t t'"
    by (metis prefix_append prefixI append_prefixD prefix_order.eq_refl prefix_same_cases)
  with ws_pairs assms(1,2) show ?thesis by (auto simp: list_all_iff)
qed

lemma ws_nonempty: "t \<in> set js_whitespace \<Longrightarrow> t \<noteq> []"
  unfolding js_whitespace_def by auto

lemma strip_ws_concat:
  "set ts \<subseteq> set js_whitespace \<Longrightarrow> strip js_whitespace (concat ts @ r) = strip js_whitespace r"
proof (induction ts)
  case Nil
  show ?case by simp
next
  case (Cons t ts)
  then have t: "t \<in> set js_whitespace" and ts: "set ts \<subseteq> set js_whitespace" by auto
  let ?s = "t @ concat ts @ r"
  have "\<exists>x. x \<in> set js_whitespace \<and> prefix x ?s" using t by auto
  then obtain t' where f: "find (\<lambda>x. prefix x ?s) js_whitespace = Some t'"
    by (cases "find (\<lambda>x. prefix x ?s) js_whitespace") (auto simp: find_None_iff)
  then have "t' \<in> set js_whitespace" "prefix t' ?s"
    by (auto simp: find_Some_iff)
  with t have "t' = t" using ws_prefix_free by blast
  with f ws_nonempty[OF t] have "strip js_whitespace ?s = strip js_whitespace (concat ts @ r)"
    by (subst strip.simps) simp
  with Cons.IH[OF ts] show ?case by simp
qed

lemma strip_Nil: "strip toks [] = []"
  using strip_drop[of toks "[]"] by auto

lemma trim_whitespace: "set ts \<subseteq> set js_whitespace \<Longrightarrow> trim (concat ts) = []"
  using strip_ws_concat[of ts "[]"] by (simp add: trim_def trimStart_def trimEnd_def strip_Nil)













lemma join_Nil_concat: "join [] xs = concat xs"
proof (induction xs)
  case Nil
  show ?case by simp
next
  case (Cons x xs)
  then show ?case by (cases xs) auto
qed

lemma prefix_hd_split:
  "prefix x s \<Longrightarrow> n \<notin> set x \<Longrightarrow> prefix x (hd (split [n] s))"
proof (induction s arbitrary: x)
  case Nil
  then show ?case by simp
next
  case (Cons c cs)
  show ?case
  proof (cases x)
    case Nil
    then show ?thesis by simp
  next
    case (Cons y x')
    with Cons.prems have y: "y = c" and p: "prefix x' cs" and n: "c \<noteq> n" "n \<notin> set x'" by auto
    from Cons.IH[OF p n(2)] have "prefix x' (hd (split [n] cs))" .
    moreover obtain r rs where "split [n] cs = r # rs"
      using split_not_Nil[of "[n]" cs] by (cases "split [n] cs") auto
    ultimately show ?thesis using n y Cons by simp
  qed
qed

lemma sublist_in_line:
  "sublist x s \<Longrightarrow> n \<notin> set x \<Longrightarrow> \<exists>l\<in>set (split [n] s). sublist x l"
proof (induction s)
  case Nil
  then show ?case by simp
next
  case (Cons c cs)
  from Cons.prems(1) have "prefix x (c # cs) \<or> sublist x cs" by (simp add: sublist_Cons_right)
  then show ?case
  proof
    assume "prefix x (c # cs)"
    from prefix_hd_split[OF this Cons.prems(2)]
    have "sublist x (hd (split [n] (c # cs)))" by (rule prefix_imp_sublist)
    moreover have "hd (split [n] (c # cs)) \<in> set (split [n] (c # cs))"
      using split_not_Nil by (intro hd_in_set)
    ultimately show ?thesis by blast
  next
    assume "sublist x cs"
    from Cons.IH[OF this Cons.prems(2)] obtain l where l: "l \<in> set (split [n] cs)" "sublist x l"
      by blast
    obtain r rs where r: "split [n] cs = r # rs"
      using split_not_Nil[of "[n]" cs] by (cases "split [n] cs") auto
    show ?thesis
    proof (cases "c = n")
      case True
      with l show ?thesis by auto
    next
      case False
      from l r have "l = r \<or> l \<in> set rs" by auto
      then show ?thesis
      proof
        assume "l = r"
        with l(2) have "sublist x (c # r)" by (simp add: sublist_Cons_right)
        with False r show ?thesis by auto
      next
        assume "l \<in> set rs"
        with False r l(2) show ?thesis by auto
      qed
    qed
  qed
qed

lemma lastHashIn_None:
  assumes "\<forall>l\<in>set (split [LF] c). \<not> includesStr l HASH"
  shows "lastHashIn c = None"
proof -
  have "\<not> includesStr c HASH"
  proof
    assume "includesStr c HASH"
    then have "sublist HASH c" by (simp add: includesStr_sublist)
    from sublist_in_line[OF this, of LF] assms show False by (auto simp: includesStr_sublist)
  qed
  then have "\<not> includesStr (trim c) HASH"
    using includesStr_mono[OF trim_sublist] by blast
  then have "\<forall>l\<in>set (split [LF] (trim c)). \<not> includesStr l HASH"
    using includesStr_mono[OF split_pieces_sublist] by blast
  then have "find (\<lambda>line. includesStr line HASH) (rev (split [LF] (trim c))) = None"
    by (simp add: find_None_iff)
  then show ?thesis by (simp add: lastHashIn_def)
qed

lemma split_HASH_field:
  assumes b: "\<not> includesStr b HASH" and rest: "rest = [] \<or> prefix HASH rest"
  shows "\<exists>ps. split HASH (b @ rest) = b # ps"
proof (cases "rest = []")
  case True
  from split_no_sep[OF b] have "split HASH (b @ []) = b # []" by (simp only: append_Nil2)
  then show ?thesis unfolding True by (rule exI)
next
  case False
  with rest obtain r where r: "rest = HASH @ r" unfolding prefix_def by blast
  from split_HASH[OF b, of r] show ?thesis unfolding r by (rule exI)
qed

lemma split_HASH_line:
  assumes a: "\<not> includesStr a HASH"
    and b: "\<not> includesStr b HASH" and rest: "rest = [] \<or> prefix HASH rest"
  shows "\<exists>ps. split HASH (a @ HASH @ b @ rest) = a # b # ps"
proof -
  from split_HASH_field[OF b rest] obtain ps where "split HASH (b @ rest) = b # ps" ..
  with split_HASH[OF a, of "b @ rest"] have "split HASH (a @ HASH @ b @ rest) = a # b # ps"
    by (simp only:)
  then show ?thesis ..
qed

lemma lastHashIn_Some:
  assumes lines: "split [LF] (trim c) = pre @ [l] @ post"
    and post: "\<forall>m\<in>set post. \<not> includesStr m HASH"
    and l: "l = a @ HASH @ b @ rest"
    and a: "\<not> includesStr a HASH"
    and b: "\<not> includesStr b HASH"
    and rest: "rest = [] \<or> prefix HASH rest"
  shows "lastHashIn c = Some (trim b)"
proof -
  have inc: "includesStr l HASH"
    unfolding l includesStr_sublist sublist_def by (intro exI[of _ a] exI[of _ "b @ rest"]) simp
  have f: "find (\<lambda>line. includesStr line HASH) (rev (split [LF] (trim c))) = Some l"
    unfolding lines
    using find_rev_last[of post "\<lambda>line. includesStr line HASH" l pre] post inc by blast
  have ne: "l \<noteq> []" unfolding l by simp
  from split_HASH_line[OF a b rest] obtain ps where "split HASH l = a # b # ps"
    unfolding l ..
  then show ?thesis unfolding lastHashIn_def Let_def f using ne by simp
qed

lemma getLastBackupHash_result:
  "fst (getLastBackupHash p w) =
     Inr (case fst (readFile p w) of Inl e \<Rightarrow> None | Inr c \<Rightarrow> lastHashIn c)"
  by (auto simp: getLastBackupHash_def try_catch_def bind_io_def return_io_def print_def
      split: prod.splits sum.splits)

lemma readFile_result:
  "fst (readFile p w) =
     (case faults w (tick w) of
        Some e \<Rightarrow> Inl e
      | None \<Rightarrow>
         (case files w p of
            Some c \<Rightarrow> Inr c
          | None \<Rightarrow>
             (case dirs w p of
                Some x \<Rightarrow> Inl (Error ''EISDIR: illegal operation on a directory, read'')
              | None \<Rightarrow> Inl (Error (''ENOENT: no such file or directory, open '' @ quoted p)))))"
  by (simp add: readFile_def io_step_def split: option.splits)

section \<open>getLastBackupHash\<close>

lemmas trim_eval = trim_def trimStart_def trimEnd_def strip.simps js_whitespace_def

lemma ws_no_H: "set ws \<subseteq> set js_whitespace \<Longrightarrow> CHR ''H'' \<notin> set (concat ws)"
  unfolding js_whitespace_def by auto

lemma includesStr_HASH_H: "includesStr s HASH \<Longrightarrow> CHR ''H'' \<in> set s"
  by (induction s) (auto simp: prefix_Cons)

text \<open>
  C3. \<^verbatim>\<open>getLastBackupHash\<close> never raises. It resolves to \<^verbatim>\<open>null\<close> when reading the log
  fails for whatever reason, in particular when the log file does not exist, when the
  file is empty, and when no line of the file contains \<^verbatim>\<open>HASH:\<close>.
\<close>

theorem getLastBackupHash_never_raises:
  "(\<exists>r w'. getLastBackupHash logPath w = (Inr r, w'))
   \<and> (\<forall>e. fst (readFile logPath w) = Inl e \<longrightarrow> fst (getLastBackupHash logPath w) = Inr None)
   \<and> (files w logPath = None \<longrightarrow> fst (getLastBackupHash logPath w) = Inr None)
   \<and> (fst (readFile logPath w) = Inr [] \<longrightarrow> fst (getLastBackupHash logPath w) = Inr None)
   \<and> (\<forall>c. fst (readFile logPath w) = Inr c \<longrightarrow> (\<forall>l\<in>set (split [LF] c). \<not> includesStr l HASH)
          \<longrightarrow> fst (getLastBackupHash logPath w) = Inr None)"
proof (intro conjI allI impI)
  show "\<exists>r w'. getLastBackupHash logPath w = (Inr r, w')"
    using getLastBackupHash_result[of logPath w]
    by (cases "getLastBackupHash logPath w") auto
next
  fix e assume "fst (readFile logPath w) = Inl e"
  then show "fst (getLastBackupHash logPath w) = Inr None"
    by (simp add: getLastBackupHash_result)
next
  assume "files w logPath = None"
  then show "fst (getLastBackupHash logPath w) = Inr None"
    by (simp add: getLastBackupHash_result readFile_result split: option.splits)
next
  assume "fst (readFile logPath w) = Inr []"
  moreover have "lastHashIn [] = None" by (rule lastHashIn_None) simp
  ultimately show "fst (getLastBackupHash logPath w) = Inr None"
    by (simp add: getLastBackupHash_result)
next
  fix c assume "fst (readFile logPath w) = Inr c" "\<forall>l\<in>set (split [LF] c). \<not> includesStr l HASH"
  then show "fst (getLastBackupHash logPath w) = Inr None"
    by (simp add: getLastBackupHash_result lastHashIn_None)
qed

theorem getLastBackupHash_never_raises_witness:
  "fst (getLastBackupHash logFilePath (example_world [] Map.empty no_faults)) = Inr None
   \<and> fst (getLastBackupHash logFilePath
        (example_world [] [logFilePath \<mapsto> ''not a log entry'' @ [LF] @ ''t: FAILED: disk full'' @ [LF]]
           no_faults)) = Inr None
   \<and> fst (getLastBackupHash logFilePath
        (example_world [] [logFilePath \<mapsto> ''t: SUCCESS: Backup created at dst/a.tar.gz, HASH: 1111'' @ [LF]]
           (\<lambda>n. Some (Error ''EACCES: permission denied'')))) = Inr None"
proof (intro conjI)
  let ?w = "example_world [] Map.empty no_faults"
  have "files ?w logFilePath = None" by (simp add: example_world_def)
  with getLastBackupHash_never_raises[of logFilePath ?w]
  show "fst (getLastBackupHash logFilePath ?w) = Inr None" by blast
next
  let ?c = "''not a log entry'' @ [LF] @ ''t: FAILED: disk full'' @ [LF]"
  let ?w = "example_world [] [logFilePath \<mapsto> ?c] no_faults"
  have "fst (readFile logFilePath ?w) = Inr ?c"
    by (simp add: readFile_result example_world_def no_faults_def)
  moreover have "\<forall>l\<in>set (split [LF] ?c). \<not> includesStr l HASH" by simp
  ultimately show "fst (getLastBackupHash logFilePath ?w) = Inr None"
    using getLastBackupHash_never_raises[of logFilePath ?w] by blast
next
  let ?w = "example_world [] [logFilePath \<mapsto> ''t: SUCCESS: Backup created at dst/a.tar.gz, HASH: 1111'' @ [LF]]
           (\<lambda>n. Some (Error ''EACCES: permission denied''))"
  have "fst (readFile logFilePath ?w) = Inl (Error ''EACCES: permission denied'')"
    by (simp add: readFile_result example_world_def)
  with getLastBackupHash_never_raises[of logFilePath ?w]
  show "fst (getLastBackupHash logFilePath ?w) = Inr None" by blast
qed

text \<open>
  C2 (as amended). When the log can be read and, among the lines that \<^verbatim>\<open>getLastBackupHash\<close> splits it
  into, \<open>line\<close> is the last one that contains \<^verbatim>\<open>HASH:\<close>, the function resolves to the
  trimmed text \<open>b\<close> that follows the first \<^verbatim>\<open>HASH:\<close> of that line (up to the next
  \<^verbatim>\<open>HASH:\<close>, if the line has one). The lines before it, with or without \<^verbatim>\<open>HASH:\<close>, and
  the lines after it, which have none, do not matter.
\<close>

theorem getLastBackupHash_last_line:
  assumes "fst (readFile logPath w) = Inr content"
    and "split [LF] (trim content) = earlier @ [line] @ later"
    and "\<forall>m\<in>set later. \<not> includesStr m HASH"
    and "line = a @ HASH @ b @ rest"
    and "\<not> includesStr a HASH"
    and "\<not> includesStr b HASH"
    and "rest = [] \<or> prefix HASH rest"
  shows "fst (getLastBackupHash logPath w) = Inr (Some (trim b))"
  using assms(1) lastHashIn_Some[OF assms(2-7)] by (simp add: getLastBackupHash_result)

theorem getLastBackupHash_last_line_witness:
  "fst (getLastBackupHash logFilePath
     (example_world []
        [logFilePath \<mapsto> ''t1: SUCCESS: Backup created at dst/a.tar.gz, HASH: 1111'' @ [LF]
            @ ''t2: SUCCESS: Backup created at dst/b.tar.gz, HASH: 2222'' @ [LF]
            @ ''t3: FAILED: disk full'' @ [LF]]
        no_faults)) = Inr (Some ''2222'')"
proof -
  let ?c = "''t1: SUCCESS: Backup created at dst/a.tar.gz, HASH: 1111'' @ [LF]
            @ ''t2: SUCCESS: Backup created at dst/b.tar.gz, HASH: 2222'' @ [LF]
            @ ''t3: FAILED: disk full'' @ [LF]"
  let ?w = "example_world [] [logFilePath \<mapsto> ?c] no_faults"
  have 1: "fst (readFile logFilePath ?w) = Inr ?c"
    by (simp add: readFile_result example_world_def no_faults_def)
  have 2: "split [LF] (trim ?c) =
      [''t1: SUCCESS: Backup created at dst/a.tar.gz, HASH: 1111'']
      @ [''t2: SUCCESS: Backup created at dst/b.tar.gz, HASH: 2222''] @ [''t3: FAILED: disk full'']"
    by (simp add: trim_eval)
  have 3: "\<forall>m\<in>set [''t3: FAILED: disk full'']. \<not> includesStr m HASH" by simp
  have 4: "''t2: SUCCESS: Backup created at dst/b.tar.gz, HASH: 2222''
      = ''t2: SUCCESS: Backup created at dst/b.tar.gz, '' @ HASH @ '' 2222'' @ []" by simp
  have 5: "\<not> includesStr ''t2: SUCCESS: Backup created at dst/b.tar.gz, '' HASH" by simp
  have 6: "\<not> includesStr '' 2222'' HASH" by simp
  have 7: "[] = [] \<or> prefix HASH []" by simp
  have 8: "trim '' 2222'' = ''2222''" by (simp add: trim_eval)
  from getLastBackupHash_last_line[OF 1 2 3 4 5 6 7] show ?thesis unfolding 8 .
qed

text \<open>
  C9. When nothing, or only white space, follows \<^verbatim>\<open>HASH:\<close> in the last line that contains
  it, \<^verbatim>\<open>getLastBackupHash\<close> resolves to the empty string, which is not \<^verbatim>\<open>null\<close>.
\<close>

theorem getLastBackupHash_empty_hash:
  assumes "fst (readFile logPath w) = Inr content"
    and "split [LF] (trim content) = earlier @ [line] @ later"
    and "\<forall>m\<in>set later. \<not> includesStr m HASH"
    and "line = a @ HASH @ concat ws"
    and "\<not> includesStr a HASH"
    and "set ws \<subseteq> set js_whitespace"
  shows "fst (getLastBackupHash logPath w) = Inr (Some [])
       \<and> fst (getLastBackupHash logPath w) \<noteq> Inr None"
proof -
  have b: "\<not> includesStr (concat ws) HASH"
    using ws_no_H[OF assms(6)] includesStr_HASH_H by blast
  have l: "line = a @ HASH @ concat ws @ []" using assms(4) by simp
  have "lastHashIn content = Some (trim (concat ws))"
    using assms(2,3) l assms(5) b by (rule lastHashIn_Some) simp
  with assms(1) trim_whitespace[OF assms(6)] show ?thesis
    by (simp add: getLastBackupHash_result)
qed

theorem getLastBackupHash_empty_hash_witness:
  "fst (getLastBackupHash logFilePath
     (example_world []
        [logFilePath \<mapsto> ''t1: SUCCESS: Backup created at dst/a.tar.gz, HASH: 1111'' @ [LF]
            @ ''t2: SUCCESS: Backup created at dst/b.tar.gz, HASH: '' @ [LF]
            @ ''t3: FAILED: disk full'' @ [LF]]
        no_faults)) = Inr (Some [])"
proof -
  let ?c = "''t1: SUCCESS: Backup created at dst/a.tar.gz, HASH: 1111'' @ [LF]
            @ ''t2: SUCCESS: Backup created at dst/b.tar.gz, HASH: '' @ [LF]
            @ ''t3: FAILED: disk full'' @ [LF]"
  let ?w = "example_world [] [logFilePath \<mapsto> ?c] no_faults"
  have 1: "fst (readFile logFilePath ?w) = Inr ?c"
    by (simp add: readFile_result example_world_def no_faults_def)
  have 2: "split [LF] (trim ?c) =
      [''t1: SUCCESS: Backup created at dst/a.tar.gz, HASH: 1111'']
      @ [''t2: SUCCESS: Backup created at dst/b.tar.gz, HASH: ''] @ [''t3: FAILED: disk full'']"
    by (simp add: trim_eval)
  have 3: "\<forall>m\<in>set [''t3: FAILED: disk full'']. \<not> includesStr m HASH" by simp
  have 4: "''t2: SUCCESS: Backup created at dst/b.tar.gz, HASH: ''
      = ''t2: SUCCESS: Backup created at dst/b.tar.gz, '' @ HASH @ concat ['' '']" by simp
  have 5: "\<not> includesStr ''t2: SUCCESS: Backup created at dst/b.tar.gz, '' HASH" by simp
  have 6: "set ['' ''] \<subseteq> set js_whitespace" by (simp add: js_whitespace_def)
  from getLastBackupHash_empty_hash[OF 1 2 3 4 5 6] show ?thesis by simp
qed

section \<open>createArchive and runBackup\<close>

lemmas io_defs = return_io_def throw_def bind_io_def try_catch_def io_step_def
  readFile_def readdir_def mkdir_def appendFile_def promisifiedExec_def print_def
  promise_all_def

lemmas program_defs = getLastBackupHash_def createArchive_try_def createArchive_catch_def
  createArchive_def runBackup_try_def runBackup_catch_def runBackup_def
  tarCommand_def successLog_def failedLog_def calculateDirectoryChecksum_def

lemmas date_eval = toISOString_def pad2_def pad3_def pad4_def pad6_def digit_def dashed_def
  forward_slashes_def example_clock_def

lemmas example_defs = example_world_def no_faults_def logFilePath_def quoted_def

lemma snd_readFile: "snd (readFile p w) = w\<lparr>tick := Suc (tick w)\<rparr>"
  by (simp add: readFile_def io_step_def split: option.splits)

lemma readFile_Inr: "fst (readFile p w) = Inr c \<Longrightarrow> files w p = Some c"
  by (simp add: readFile_def io_step_def split: option.splits)

lemma all_io_readFile:
  "all_io (\<lambda>file. readFile (g file)) names w = (rs, w1) \<Longrightarrow>
     w1 = w\<lparr>tick := tick w + length names\<rparr>
     \<and> (rejections rs = [] \<longrightarrow> map (\<lambda>file. files w (g file)) names = map Some (fulfilled rs))"
proof (induction names arbitrary: w rs w1)
  case Nil
  then show ?case by simp
next
  case (Cons x xs)
  let ?w = "w\<lparr>tick := Suc (tick w)\<rparr>"
  obtain r where r: "readFile (g x) w = (r, ?w)"
    using snd_readFile[of "g x" w] by (cases "readFile (g x) w") auto
  obtain rs' w' where a: "all_io (\<lambda>file. readFile (g file)) xs ?w = (rs', w')"
    by (cases "all_io (\<lambda>file. readFile (g file)) xs ?w") auto
  from Cons.IH[OF a] have w': "w' = ?w\<lparr>tick := tick ?w + length xs\<rparr>"
    and ok: "rejections rs' = [] \<longrightarrow> map (\<lambda>file. files w (g file)) xs = map Some (fulfilled rs')"
    by simp_all
  from Cons.prems r a have rs: "rs = r # rs'" and w1: "w1 = w'" by simp_all
  show ?case
  proof (cases r)
    case (Inl e)
    with rs w1 w' show ?thesis by simp
  next
    case (Inr c)
    with r have "files w (g x) = Some c" using readFile_Inr[of "g x" w c] by simp
    with Inr rs w1 w' ok show ?thesis by simp
  qed
qed

lemma promise_all_readFile:
  assumes "promise_all (\<lambda>file. readFile (g file)) names w = (r, w1)"
  shows "w1 = w\<lparr>tick := tick w + length names\<rparr>
       \<and> (\<forall>contents. r = Inr contents \<longrightarrow>
             map (\<lambda>file. files w (g file)) names = map Some contents)"
proof -
  obtain rs w' where a: "all_io (\<lambda>file. readFile (g file)) names w = (rs, w')"
    by (cases "all_io (\<lambda>file. readFile (g file)) names w") auto
  from all_io_readFile[OF a] assms a show ?thesis
    by (auto simp: promise_all_def split: list.splits)
qed

lemma all_io_readFile_ok:
  assumes "\<forall>n. faults w n = None"
    and "map (\<lambda>file. files w (g file)) names = map Some contents"
  shows "all_io (\<lambda>file. readFile (g file)) names w
       = (map Inr contents, w\<lparr>tick := tick w + length names\<rparr>)"
  using assms
proof (induction names arbitrary: w contents)
  case Nil
  then show ?case by simp
next
  case (Cons x xs)
  from Cons.prems(2) obtain c cs where c: "contents = c # cs" "files w (g x) = Some c"
    "map (\<lambda>file. files w (g file)) xs = map Some cs" by (cases contents) auto
  let ?w = "w\<lparr>tick := Suc (tick w)\<rparr>"
  have r: "readFile (g x) w = (Inr c, ?w)"
    using Cons.prems(1) c(2) by (simp add: readFile_def io_step_def)
  have "all_io (\<lambda>file. readFile (g file)) xs ?w
      = (map Inr cs, ?w\<lparr>tick := tick ?w + length xs\<rparr>)"
    by (rule Cons.IH) (use Cons.prems(1) c(3) in simp_all)
  with r show ?case by (simp add: c(1))
qed

lemma rejections_map_Inr: "rejections (map Inr cs) = []"
  by (induction cs) auto

lemma fulfilled_map_Inr: "fulfilled (map Inr cs) = cs"
  by (induction cs) auto

lemma promise_all_readFile_ok:
  assumes "\<forall>n. faults w n = None"
    and "map (\<lambda>file. files w (g file)) names = map Some contents"
  shows "promise_all (\<lambda>file. readFile (g file)) names w
       = (Inr contents, w\<lparr>tick := tick w + length names\<rparr>)"
  by (simp add: promise_all_def all_io_readFile_ok[OF assms] rejections_map_Inr
      fulfilled_map_Inr)

text \<open>
  C8. \<^verbatim>\<open>runBackup\<close> never raises: for every source and destination directory, in every
  world and under every fault plan, it resolves normally. When its \<^verbatim>\<open>try\<close> block raises,
  the message of the error is printed with \<^verbatim>\<open>console.error\<close> and written to the standard
  error stream, and nothing else changes.
\<close>

theorem runBackup_never_raises:
  "\<exists>w'. runBackup sourceDir destinationDir w = (Inr (), w')
     \<and> (case runBackup_try sourceDir destinationDir w of
          (Inl e, w1) \<Rightarrow>
            w' = w1\<lparr>console := console w1 @
                   [ConsoleError (''Error occurred during backup: '' @ message e),
                    StderrWrite (''Error occurred during backup: '' @ message e @ [LF])]\<rparr>
        | (Inr u, w1) \<Rightarrow> w' = w1)"
  by (auto simp: runBackup_def runBackup_catch_def try_catch_def bind_io_def print_def
      split: prod.splits sum.splits)



lemma createArchive_try_effect:
  assumes "createArchive_try ts p ns src w = (r, w1)"
  shows "dirs w1 = dirs w \<and> faults w1 = faults w \<and> clock w1 = clock w
       \<and> (case r of
            Inl e \<Rightarrow> files w1 = files w
          | Inr u \<Rightarrow> \<exists>names contents. dirs w src = Some names
              \<and> map (\<lambda>file. files w (path_join w src file)) names = map Some contents
              \<and> files w1 = (files w)(logFilePath \<mapsto>
                    text_of w logFilePath @ successLog ts p (sha256 (concat contents))))"
proof -
  let ?cmd = "tarCommand p ns"
  let ?w0 = "w\<lparr>console := console w @ [ConsoleLog (''Running tar command: '' @ ?cmd)]\<rparr>"
  show ?thesis
  proof (cases "faults w (tick w)")
    case (Some e)
    with assms show ?thesis
      by (auto simp: createArchive_try_def Let_def bind_io_def print_def promisifiedExec_def io_step_def)
  next
    case None
    let ?w1 = "?w0\<lparr>tick := Suc (tick w), executed := executed w @ [?cmd]\<rparr>"
    show ?thesis
    proof (cases "readdir src ?w1")
      case (Pair rd w2)
      then have w2: "w2 = ?w1\<lparr>tick := Suc (Suc (tick w))\<rparr>"
        by (auto simp: readdir_def io_step_def split: option.splits)
      show ?thesis
      proof (cases rd)
        case (Inl e)
        with assms None Pair w2 show ?thesis
          by (auto simp: createArchive_try_def Let_def bind_io_def print_def promisifiedExec_def io_step_def)
      next
        case (Inr names)
        with Pair have nm: "dirs w src = Some names"
          by (auto simp: readdir_def io_step_def split: option.splits)
        let ?w3 = "w2\<lparr>console := console w2 @ [ConsoleLog (''Files in source directory: '' @ join '','' names)]\<rparr>"
        obtain rm w4 where m: "promise_all (\<lambda>file. readFile (path_join ?w3 src file)) names ?w3 = (rm, w4)"
          by (cases "promise_all (\<lambda>file. readFile (path_join ?w3 src file)) names ?w3") auto
        from promise_all_readFile[OF m] have w4: "w4 = ?w3\<lparr>tick := tick ?w3 + length names\<rparr>"
          and rd_ok: "\<And>contents. rm = Inr contents \<Longrightarrow>
             map (\<lambda>file. files ?w3 (path_join ?w3 src file)) names = map Some contents"
          by blast+
        show ?thesis
        proof (cases rm)
          case (Inl e)
          with assms None Pair Inr m have "r = Inl e" "w1 = w4"
            by (auto simp: createArchive_try_def Let_def bind_io_def print_def promisifiedExec_def io_step_def)
          with w4 w2 show ?thesis by simp
        next
          case cs: (Inr contents)
          from rd_ok[OF cs] w2 have fc: "map (\<lambda>file. files w (path_join w src file)) names = map Some contents"
            by simp
          let ?entry = "successLog ts p (calculateDirectoryChecksum (join [] contents))"
          let ?w5 = "w4\<lparr>console := console w4 @ [ConsoleLog (''Writing success log: '' @ ?entry)]\<rparr>"
          from assms None Pair Inr m cs have a: "appendFile logFilePath ?entry ?w5 = (r, w1)"
            by (auto simp: createArchive_try_def Let_def bind_io_def print_def promisifiedExec_def io_step_def)
          then show ?thesis using w4 w2 nm fc
            by (auto simp: appendFile_def io_step_def text_of_def calculateDirectoryChecksum_def
                join_Nil_concat split: option.splits)
        qed
      qed
    qed
  qed
qed

lemma createArchive_catch_effect:
  assumes "createArchive_catch e w = (r, w')"
  shows "dirs w' = dirs w \<and> executed w' = executed w
       \<and> ((r = Inl (Error (''Failed to create backup, error = '' @ message e))
             \<and> files w' = (files w)(logFilePath \<mapsto>
                   text_of w logFilePath @ failedLog (toISOString (clock w (tick w))) (message e))
             \<and> faults w (tick w) = None \<and> dirs w logFilePath = None)
          \<or> (files w' = files w
             \<and> (\<exists>err. r = Inl err \<and> (faults w (tick w) = Some err \<or> dirs w logFilePath \<noteq> None))))"
  using assms
  by (auto simp: createArchive_catch_def Let_def bind_io_def print_def appendFile_def io_step_def
      throw_def text_of_def split: option.splits)

lemma createArchive_cases:
  assumes "createArchive s d w = (r, w')"
  shows "(\<exists>names contents. r = Inr () \<and> dirs w s = Some names
            \<and> map (\<lambda>file. files w (path_join w s file)) names = map Some contents
            \<and> files w' = (files w)(logFilePath \<mapsto> text_of w logFilePath @
               successLog (dashed (toISOString (clock w (tick w))))
                 (forward_slashes (path_join w d
                    (''backup-'' @ dashed (toISOString (clock w (tick w))) @ ''.tar.gz'')))
                 (sha256 (concat contents))))
       \<or> (\<exists>e n. r = Inl (Error (''Failed to create backup, error = '' @ message e)) \<and>
            files w' = (files w)(logFilePath \<mapsto> text_of w logFilePath @
               failedLog (toISOString (clock w n)) (message e)))
       \<or> (\<exists>err. r = Inl err \<and> files w' = files w
            \<and> (dirs w logFilePath \<noteq> None \<or> (\<exists>n. faults w n = Some err)))"
proof -
  let ?ts = "dashed (toISOString (clock w (tick w)))"
  let ?p = "forward_slashes (path_join w d (''backup-'' @ ?ts @ ''.tar.gz''))"
  obtain r1 w1 where t: "createArchive_try ?ts ?p (forward_slashes s) s w = (r1, w1)"
    by (cases "createArchive_try ?ts ?p (forward_slashes s) s w") auto
  note eff = createArchive_try_effect[OF t]
  show ?thesis
  proof (cases r1)
    case (Inr u)
    with t assms have "r = Inr ()" "w' = w1"
      by (auto simp: createArchive_def Let_def try_catch_def)
    with eff Inr show ?thesis by auto
  next
    case (Inl e)
    with t assms have c: "createArchive_catch e w1 = (r, w')"
      by (auto simp: createArchive_def Let_def try_catch_def)
    from eff Inl have same: "files w1 = files w" "dirs w1 = dirs w" "faults w1 = faults w"
      "clock w1 = clock w" by auto
    then have tof: "text_of w1 logFilePath = text_of w logFilePath" by (simp add: text_of_def)
    from createArchive_catch_effect[OF c] show ?thesis
      unfolding same tof by (elim conjE disjE) blast+
  qed
qed







lemma is_iso8601_length: "is_iso8601 ts \<Longrightarrow> length ts = 24 \<or> length ts = 27"
  by (auto simp: is_iso8601_def matches_def dest: list_all2_lengthD)

lemma spec_log_line_timestamp:
  assumes "spec_log_line l"
  shows "is_iso8601 (take 24 l) \<or> is_iso8601 (take 27 l)"
proof -
  from assms obtain ts rest where ts: "is_iso8601 ts" and l: "l = ts @ rest"
    unfolding spec_log_line_def by auto
  from is_iso8601_length[OF ts] show ?thesis
  proof
    assume "length ts = 24"
    with l have "take 24 l = ts" by simp
    with ts show ?thesis by simp
  next
    assume "length ts = 27"
    with l have "take 27 l = ts" by simp
    with ts show ?thesis by simp
  qed
qed

lemma sha256_foobar:
  "sha256 ''foobar'' = ''c3ab8ff13720e8ad9047dd39466b3c8974e592c2fa383d4a3960714caef0c4f2''"
  by code_simp

lemma sha256_foo:
  "sha256 ''foo'' = ''2c26b46b68ffc68ff99b453c1d30413413422d706483bfa0f98a5e886266e7ae''"
  by code_simp

lemma sha256_a_txt:
  "sha256 ''a.txt'' = ''18b7cb099a9ea3f50ba899b5ba81e0d377a5f3b16f8f6eeb8b3e58cd4692b993''"
  by code_simp

lemma sha256_abc:
  "sha256 ''abc'' = ''ba7816bf8f01cfea414140de5dae2223b00361a396177a9cb410ff61f20015ad''"
  by code_simp

section \<open>The claims about createArchive and runBackup\<close>

lemma log_entry_length: "log_entry e \<Longrightarrow> 24 \<le> length e"
  by (auto simp: log_entry_def is_hex64_def dest: is_iso8601_length)

text \<open>
  C2, as the claim states it, fails on the code in two ways. A line that is no log entry
  but contains \<^verbatim>\<open>HASH:\<close> is not skipped: after an entry that the program wrote, the line
  \<^verbatim>\<open>garbage HASH: zzz\<close> decides, and the result is \<open>zzz\<close>. And what is returned is the text
  after the first \<^verbatim>\<open>HASH:\<close> of the line, which is not the recorded hash when the path of the
  archive contains \<^verbatim>\<open>HASH:\<close>: after \<^verbatim>\<open>createArchive\<close> with the destination \<^verbatim>\<open>out/HASH:d\<close>,
  the result is a piece of the path.
\<close>

theorem getLastBackupHash_last_line_counterexample:
  "fst (getLastBackupHash logFilePath
     (example_world []
        [logFilePath \<mapsto> ''2024-01-01T12-00-03-000Z: SUCCESS: Backup created at ''
            @ ''dst/backup-2024-01-01T12-00-03-000Z.tar.gz, HASH: ''
            @ ''2c26b46b68ffc68ff99b453c1d30413413422d706483bfa0f98a5e886266e7ae'' @ [LF]
            @ ''garbage HASH: zzz'' @ [LF]]
        no_faults)) = Inr (Some ''zzz'')
   \<and> \<not> spec_log_line ''garbage HASH: zzz''
   \<and> \<not> log_entry (''garbage HASH: zzz'' @ [LF])
   \<and> fst (getLastBackupHash logFilePath
        (snd (createArchive ''src'' ''out/HASH:d''
           (example_world [''a.txt''] [''src/a.txt'' \<mapsto> ''foo''] no_faults))))
       = Inr (Some ''d/backup-2024-01-01T12-00-00-000Z.tar.gz,'')"
proof (intro conjI)
  let ?c = "''2024-01-01T12-00-03-000Z: SUCCESS: Backup created at ''
            @ ''dst/backup-2024-01-01T12-00-03-000Z.tar.gz, HASH: ''
            @ ''2c26b46b68ffc68ff99b453c1d30413413422d706483bfa0f98a5e886266e7ae'' @ [LF]
            @ ''garbage HASH: zzz'' @ [LF]"
  have "lastHashIn ?c = Some ''zzz''" by (simp add: lastHashIn_def trim_eval)
  then show "fst (getLastBackupHash logFilePath (example_world [] [logFilePath \<mapsto> ?c] no_faults))
      = Inr (Some ''zzz'')"
    by (simp add: getLastBackupHash_result readFile_result example_defs)
next
  show "\<not> spec_log_line ''garbage HASH: zzz''"
    using spec_log_line_timestamp[of "''garbage HASH: zzz''"]
    by (auto simp: is_iso8601_def matches_def)
next
  show "\<not> log_entry (''garbage HASH: zzz'' @ [LF])"
    using log_entry_length[of "''garbage HASH: zzz'' @ [LF]"] by auto
next
  let ?w = "example_world [''a.txt''] [''src/a.txt'' \<mapsto> ''foo''] no_faults"
  let ?e = "''2024-01-01T12-00-00-000Z: SUCCESS: Backup created at ''
            @ ''out/HASH:d/backup-2024-01-01T12-00-00-000Z.tar.gz, HASH: ''
            @ ''2c26b46b68ffc68ff99b453c1d30413413422d706483bfa0f98a5e886266e7ae'' @ [LF]"
  have f: "files (snd (createArchive ''src'' ''out/HASH:d'' ?w)) logFilePath = Some ?e"
    and t: "faults (snd (createArchive ''src'' ''out/HASH:d'' ?w))
              (tick (snd (createArchive ''src'' ''out/HASH:d'' ?w))) = None"
    by (simp_all add: example_defs io_defs program_defs date_eval Let_def sha256_foo)
  have "lastHashIn ?e = Some ''d/backup-2024-01-01T12-00-00-000Z.tar.gz,''"
    by (simp add: lastHashIn_def trim_eval)
  with f t show "fst (getLastBackupHash logFilePath (snd (createArchive ''src'' ''out/HASH:d'' ?w)))
      = Inr (Some ''d/backup-2024-01-01T12-00-00-000Z.tar.gz,'')"
    by (simp add: getLastBackupHash_result readFile_result)
qed

text \<open>
  C4. Whenever \<^verbatim>\<open>createArchive\<close> returns normally, the entry it has appended to the log
  ends with \<^verbatim>\<open>HASH:\<close> and the SHA-256 digest, in hexadecimal, of the contents of the files
  of the source directory, concatenated in the order in which \<^verbatim>\<open>readdir\<close> lists them.
\<close>

theorem createArchive_records_content_fingerprint:
  assumes "createArchive sourceDir destinationDir w = (Inr (), w')"
  shows "\<exists>names contents. dirs w sourceDir = Some names
     \<and> map (\<lambda>file. files w (path_join w sourceDir file)) names = map Some contents
     \<and> files w' logFilePath =
         Some (text_of w logFilePath
           @ dashed (toISOString (clock w (tick w))) @ '': SUCCESS: Backup created at ''
           @ forward_slashes (path_join w destinationDir
               (''backup-'' @ dashed (toISOString (clock w (tick w))) @ ''.tar.gz''))
           @ '', HASH: '' @ calculateDirectoryChecksum (concat contents) @ [LF])
     \<and> calculateDirectoryChecksum (concat contents) = sha256 (concat contents)"
  using createArchive_cases[OF assms]
  by (auto simp: successLog_def calculateDirectoryChecksum_def)

theorem createArchive_records_content_fingerprint_witness:
  "files (snd (createArchive ''src'' ''dst''
      (example_world [''a.txt'', ''b.txt''] [''src/a.txt'' \<mapsto> ''foo'', ''src/b.txt'' \<mapsto> ''bar'']
         no_faults))) logFilePath =
     Some (''2024-01-01T12-00-00-000Z: SUCCESS: Backup created at ''
       @ ''dst/backup-2024-01-01T12-00-00-000Z.tar.gz, HASH: ''
       @ sha256 ''foobar'' @ [LF])
   \<and> sha256 ''foobar'' = ''c3ab8ff13720e8ad9047dd39466b3c8974e592c2fa383d4a3960714caef0c4f2''"
proof
  let ?w = "example_world [''a.txt'', ''b.txt''] [''src/a.txt'' \<mapsto> ''foo'', ''src/b.txt'' \<mapsto> ''bar'']
         no_faults"
  have h: "createArchive ''src'' ''dst'' ?w = (Inr (), snd (createArchive ''src'' ''dst'' ?w))"
    by (simp add: example_defs io_defs program_defs date_eval Let_def)
  from createArchive_records_content_fingerprint[OF h]
  obtain names contents where n: "dirs ?w ''src'' = Some names"
    and c: "map (\<lambda>file. files ?w (path_join ?w ''src'' file)) names = map Some contents"
    and f: "files (snd (createArchive ''src'' ''dst'' ?w)) logFilePath =
         Some (text_of ?w logFilePath
           @ dashed (toISOString (clock ?w (tick ?w))) @ '': SUCCESS: Backup created at ''
           @ forward_slashes (path_join ?w ''dst''
               (''backup-'' @ dashed (toISOString (clock ?w (tick ?w))) @ ''.tar.gz''))
           @ '', HASH: '' @ calculateDirectoryChecksum (concat contents) @ [LF])"
    and s: "calculateDirectoryChecksum (concat contents) = sha256 (concat contents)"
    by blast
  from n have "names = [''a.txt'', ''b.txt'']" by (simp add: example_defs)
  with c have "contents = [''foo'', ''bar'']" by (auto simp: example_defs)
  with f s show "files (snd (createArchive ''src'' ''dst'' ?w)) logFilePath =
     Some (''2024-01-01T12-00-00-000Z: SUCCESS: Backup created at ''
       @ ''dst/backup-2024-01-01T12-00-00-000Z.tar.gz, HASH: ''
       @ sha256 ''foobar'' @ [LF])"
    by (simp add: text_of_def example_defs date_eval)
next
  show "sha256 ''foobar'' = ''c3ab8ff13720e8ad9047dd39466b3c8974e592c2fa383d4a3960714caef0c4f2''"
    by (rule sha256_foobar)
qed









text \<open>
  C10. The pre-check fingerprint is the digest of the entry names joined without a
  separator. The listings \<open>[ab, c]\<close> and \<open>[a, bc]\<close> differ, are joined to the same string
  \<open>abc\<close>, and so have the same fingerprint with no collision of the hash function. With
  a log whose last recorded hash is the digest of \<open>abc\<close>, \<^verbatim>\<open>runBackup\<close> skips the backup
  for the one listing and for the other: it prints its notice and does nothing else.
\<close>

theorem precheck_fingerprint_not_injective:
  "[''ab'', ''c''] \<noteq> [''a'', ''bc'']
   \<and> join [] [''ab'', ''c''] = ''abc''
   \<and> join [] [''a'', ''bc''] = ''abc''
   \<and> calculateDirectoryChecksum (join [] [''ab'', ''c''])
       = calculateDirectoryChecksum (join [] [''a'', ''bc''])
   \<and> runBackup ''src'' ''dst''
        (example_world [''ab'', ''c'']
           [logFilePath \<mapsto> ''2024-01-01T11-00-00-000Z: SUCCESS: Backup created at ''
              @ ''dst/backup-2024-01-01T11-00-00-000Z.tar.gz, HASH: ''
              @ ''ba7816bf8f01cfea414140de5dae2223b00361a396177a9cb410ff61f20015ad'' @ [LF]]
           no_faults)
       = (Inr (),
          (example_world [''ab'', ''c'']
           [logFilePath \<mapsto> ''2024-01-01T11-00-00-000Z: SUCCESS: Backup created at ''
              @ ''dst/backup-2024-01-01T11-00-00-000Z.tar.gz, HASH: ''
              @ ''ba7816bf8f01cfea414140de5dae2223b00361a396177a9cb410ff61f20015ad'' @ [LF]]
           no_faults)
          \<lparr>console := [ConsoleLog ''No changes detected since last backup''], tick := 2\<rparr>)
   \<and> runBackup ''src'' ''dst''
        (example_world [''a'', ''bc'']
           [logFilePath \<mapsto> ''2024-01-01T11-00-00-000Z: SUCCESS: Backup created at ''
              @ ''dst/backup-2024-01-01T11-00-00-000Z.tar.gz, HASH: ''
              @ ''ba7816bf8f01cfea414140de5dae2223b00361a396177a9cb410ff61f20015ad'' @ [LF]]
           no_faults)
       = (Inr (),
          (example_world [''a'', ''bc'']
           [logFilePath \<mapsto> ''2024-01-01T11-00-00-000Z: SUCCESS: Backup created at ''
              @ ''dst/backup-2024-01-01T11-00-00-000Z.tar.gz, HASH: ''
              @ ''ba7816bf8f01cfea414140de5dae2223b00361a396177a9cb410ff61f20015ad'' @ [LF]]
           no_faults)
          \<lparr>console := [ConsoleLog ''No changes detected since last backup''], tick := 2\<rparr>)"
proof -
  have l: "lastHashIn (''2024-01-01T11-00-00-000Z: SUCCESS: Backup created at ''
              @ ''dst/backup-2024-01-01T11-00-00-000Z.tar.gz, HASH: ''
              @ ''ba7816bf8f01cfea414140de5dae2223b00361a396177a9cb410ff61f20015ad'' @ [LF])
      = Some ''ba7816bf8f01cfea414140de5dae2223b00361a396177a9cb410ff61f20015ad''"
    by (simp add: lastHashIn_def trim_eval)
  show ?thesis
    using l
    by (simp add: example_defs io_defs program_defs Let_def sha256_abc)
qed

text \<open>
  C1, on the code: a source directory \<open>src\<close> with the single file \<open>a.txt\<close> holding
  \<open>foo\<close>, no log yet, and two runs of \<^verbatim>\<open>runBackup\<close> in a row. The first run leaves the
  directory as it was. The second run does not skip: it compares the digest of the name
  \<open>a.txt\<close> with the digest of the content \<open>foo\<close> that the first run recorded, runs tar
  again and appends a second success entry.
\<close>

theorem second_run_archives_again:
  "dirs (snd (runBackup ''src'' ''dst''
       (example_world [''a.txt''] [''src/a.txt'' \<mapsto> ''foo''] no_faults))) ''src''
     = Some [''a.txt'']
   \<and> files (snd (runBackup ''src'' ''dst''
       (example_world [''a.txt''] [''src/a.txt'' \<mapsto> ''foo''] no_faults))) ''src/a.txt''
     = Some ''foo''
   \<and> files (snd (runBackup ''src'' ''dst'' (snd (runBackup ''src'' ''dst''
       (example_world [''a.txt''] [''src/a.txt'' \<mapsto> ''foo''] no_faults))))) logFilePath
     = Some (''2024-01-01T12-00-03-000Z: SUCCESS: Backup created at ''
         @ ''dst/backup-2024-01-01T12-00-03-000Z.tar.gz, HASH: ''
         @ ''2c26b46b68ffc68ff99b453c1d30413413422d706483bfa0f98a5e886266e7ae'' @ [LF]
         @ ''2024-01-01T12-00-10-000Z: SUCCESS: Backup created at ''
         @ ''dst/backup-2024-01-01T12-00-10-000Z.tar.gz, HASH: ''
         @ ''2c26b46b68ffc68ff99b453c1d30413413422d706483bfa0f98a5e886266e7ae'' @ [LF])
   \<and> executed (snd (runBackup ''src'' ''dst'' (snd (runBackup ''src'' ''dst''
       (example_world [''a.txt''] [''src/a.txt'' \<mapsto> ''foo''] no_faults)))))
     = [tarCommand ''dst/backup-2024-01-01T12-00-03-000Z.tar.gz'' ''src'',
        tarCommand ''dst/backup-2024-01-01T12-00-10-000Z.tar.gz'' ''src'']
   \<and> ConsoleLog ''No changes detected since last backup''
       \<notin> set (console (snd (runBackup ''src'' ''dst'' (snd (runBackup ''src'' ''dst''
           (example_world [''a.txt''] [''src/a.txt'' \<mapsto> ''foo''] no_faults))))))
   \<and> calculateDirectoryChecksum (join [] [''a.txt''])
       = ''18b7cb099a9ea3f50ba899b5ba81e0d377a5f3b16f8f6eeb8b3e58cd4692b993''"
proof -
  let ?W0 = "example_world [''a.txt''] [''src/a.txt'' \<mapsto> ''foo''] no_faults"
  let ?log1 = "''2024-01-01T12-00-03-000Z: SUCCESS: Backup created at ''
         @ ''dst/backup-2024-01-01T12-00-03-000Z.tar.gz, HASH: ''
         @ ''2c26b46b68ffc68ff99b453c1d30413413422d706483bfa0f98a5e886266e7ae'' @ [LF]"
  let ?log2 = "''2024-01-01T12-00-10-000Z: SUCCESS: Backup created at ''
         @ ''dst/backup-2024-01-01T12-00-10-000Z.tar.gz, HASH: ''
         @ ''2c26b46b68ffc68ff99b453c1d30413413422d706483bfa0f98a5e886266e7ae'' @ [LF]"
  let ?con1 = "[ConsoleErrorObj ''Error reading log file:''
            (Error (''ENOENT: no such file or directory, open '' @ quoted ''backup_log.txt'')),
          ConsoleLog (''Running tar command: ''
            @ tarCommand ''dst/backup-2024-01-01T12-00-03-000Z.tar.gz'' ''src''),
          ConsoleLog ''Files in source directory: a.txt'',
          ConsoleLog (''Writing success log: '' @ ?log1)]"
  let ?W1 = "(example_world [''a.txt''] [''src/a.txt'' \<mapsto> ''foo'', logFilePath \<mapsto> ?log1] no_faults)
      \<lparr>executed := [tarCommand ''dst/backup-2024-01-01T12-00-03-000Z.tar.gz'' ''src''],
       console := ?con1, tick := 7\<rparr>"
  let ?W2 = "(example_world [''a.txt'']
        [''src/a.txt'' \<mapsto> ''foo'', logFilePath \<mapsto> ?log1 @ ?log2] no_faults)
      \<lparr>executed := [tarCommand ''dst/backup-2024-01-01T12-00-03-000Z.tar.gz'' ''src'',
                    tarCommand ''dst/backup-2024-01-01T12-00-10-000Z.tar.gz'' ''src''],
       console := ?con1 @
         [ConsoleLog (''Running tar command: ''
            @ tarCommand ''dst/backup-2024-01-01T12-00-10-000Z.tar.gz'' ''src''),
          ConsoleLog ''Files in source directory: a.txt'',
          ConsoleLog (''Writing success log: '' @ ?log2)],
       tick := 14\<rparr>"
  have run1: "runBackup ''src'' ''dst'' ?W0 = (Inr (), ?W1)"
    by (simp add: example_defs io_defs program_defs date_eval Let_def lastHashIn_def
        sha256_foo)
  have l: "lastHashIn ?log1
      = Some ''2c26b46b68ffc68ff99b453c1d30413413422d706483bfa0f98a5e886266e7ae''"
    by (simp add: lastHashIn_def trim_eval)
  have run2: "runBackup ''src'' ''dst'' ?W1 = (Inr (), ?W2)"
    using l
    by (simp add: example_defs io_defs program_defs date_eval Let_def sha256_foo sha256_a_txt)
  have first: "dirs ?W1 ''src'' = Some [''a.txt'']" "files ?W1 ''src/a.txt'' = Some ''foo''"
    by (simp_all add: example_defs)
  have second: "files ?W2 logFilePath = Some (?log1 @ ?log2)"
    "executed ?W2
     = [tarCommand ''dst/backup-2024-01-01T12-00-03-000Z.tar.gz'' ''src'',
        tarCommand ''dst/backup-2024-01-01T12-00-10-000Z.tar.gz'' ''src'']"
    "ConsoleLog ''No changes detected since last backup'' \<notin> set (console ?W2)"
    by (simp_all add: example_defs)
  have third: "calculateDirectoryChecksum (join [] [''a.txt''])
       = ''18b7cb099a9ea3f50ba899b5ba81e0d377a5f3b16f8f6eeb8b3e58cd4692b993''"
    by (simp add: calculateDirectoryChecksum_def sha256_a_txt)
  have w1: "snd (runBackup ''src'' ''dst'' ?W0) = ?W1" by (simp only: run1 snd_conv)
  have w2: "snd (runBackup ''src'' ''dst'' ?W1) = ?W2" by (simp only: run2 snd_conv)
  show ?thesis unfolding w1 w2 using first second third by simp
qed

end
